theory Spec2Isabelle
  imports Complex_Main
begin

section \<open>JavaScript numbers\<close>

text \<open>
  The carousel computes with JavaScript numbers, which are IEEE 754 doubles. Indices and
  rounded drag steps are integers and are modelled as \<open>int\<close>; pointer positions and
  offsets are modelled as exact reals. The value NaN arises from a remainder by zero and
  from \<open>0 / 0\<close>; for a value that is either a number or NaN the model uses \<open>option\<close>
  with \<open>None\<close> for NaN. Where a result can be infinite (the opacity divides by
  \<open>maxOffset\<close>, which can be zero) or depends on the rounding of doubles (the Gaussian
  scale), the model uses the type \<open>jsnum\<close> of finite values, the two infinities and NaN.
\<close>

datatype jsnum = Finite real | PosInfinity | NegInfinity | NaN

text \<open>\<open>Math.round\<close>: the nearest integer, a half rounded towards positive infinity.\<close>

definition js_round :: "real \<Rightarrow> int" where
  "js_round v = \<lfloor>v + 1 / 2\<rfloor>"

text \<open>
  The operator \<open>%\<close> on integers: the result has the sign of the dividend and the
  magnitude \<open>|a| mod |b|\<close>; a zero divisor gives NaN.
\<close>

definition js_rem :: "int \<Rightarrow> int \<Rightarrow> int option" where
  "js_rem a b = (if b = 0 then None else Some (sgn a * (\<bar>a\<bar> mod \<bar>b\<bar>)))"

text \<open>
  The operator \<open>%\<close> on arbitrary numbers: \<open>a - b * trunc (a / b)\<close>, the quotient
  truncated towards zero; a zero divisor gives NaN.
\<close>

definition js_trunc :: "real \<Rightarrow> int" where
  "js_trunc v = (if 0 \<le> v then \<lfloor>v\<rfloor> else \<lceil>v\<rceil>)"

definition js_fmod :: "real \<Rightarrow> real \<Rightarrow> real option" where
  "js_fmod a b = (if b = 0 then None else Some (a - b * of_int (js_trunc (a / b))))"

subsection \<open>Double arithmetic\<close>

text \<open>
  Rounding of an exact result to the nearest double, ties to the even significand. The
  doubles around a real \<open>r\<close> are the integer multiples of \<open>ulp r\<close>: a significand of
  53 bits for normal numbers, the fixed spacing \<open>2^-1074\<close> for subnormal ones. A
  rounded magnitude of \<open>2^1024\<close> or more overflows to an infinity.
\<close>

definition round_half_even :: "real \<Rightarrow> int" where
  "round_half_even q =
     (let f = \<lfloor>q\<rfloor>; d = q - of_int f
      in if d < 1 / 2 then f else if 1 / 2 < d then f + 1 else if even f then f else f + 1)"

definition ulp :: "real \<Rightarrow> real" where
  "ulp r = 2 powr of_int (max (\<lfloor>log 2 \<bar>r\<bar>\<rfloor> - 52) (- 1074))"

definition overflow_threshold :: real where
  "overflow_threshold = 2 ^ 1024"

definition round_double :: "real \<Rightarrow> jsnum" where
  "round_double r =
     (if r = 0 then Finite 0
      else (let v = of_int (round_half_even (r / ulp r)) * ulp r
            in if overflow_threshold \<le> \<bar>v\<bar> then (if 0 < r then PosInfinity else NegInfinity)
               else Finite v))"

text \<open>
  The arithmetic operators on doubles, with the special cases of IEEE 754. The sign of a
  zero is not modelled: a zero divisor is taken as \<open>+0\<close>.
\<close>

fun negative :: "jsnum \<Rightarrow> bool" where
  "negative (Finite a) = (a < 0)"
| "negative NegInfinity = True"
| "negative x = False"

fun fneg :: "jsnum \<Rightarrow> jsnum" where
  "fneg (Finite a) = Finite (- a)"
| "fneg PosInfinity = NegInfinity"
| "fneg NegInfinity = PosInfinity"
| "fneg NaN = NaN"

fun fmul :: "jsnum \<Rightarrow> jsnum \<Rightarrow> jsnum" where
  "fmul NaN y = NaN"
| "fmul x NaN = NaN"
| "fmul (Finite a) (Finite b) = round_double (a * b)"
| "fmul x y =
     (if x = Finite 0 \<or> y = Finite 0 then NaN
      else if negative x = negative y then PosInfinity else NegInfinity)"

fun fdiv :: "jsnum \<Rightarrow> jsnum \<Rightarrow> jsnum" where
  "fdiv NaN y = NaN"
| "fdiv x NaN = NaN"
| "fdiv (Finite a) (Finite b) =
     (if b = 0 then (if a = 0 then NaN else if 0 < a then PosInfinity else NegInfinity)
      else round_double (a / b))"
| "fdiv (Finite a) y = Finite 0"
| "fdiv x (Finite b) = (if b < 0 then fneg x else x)"
| "fdiv x y = NaN"

fun fadd :: "jsnum \<Rightarrow> jsnum \<Rightarrow> jsnum" where
  "fadd NaN y = NaN"
| "fadd x NaN = NaN"
| "fadd (Finite a) (Finite b) = round_double (a + b)"
| "fadd (Finite a) y = y"
| "fadd x (Finite b) = x"
| "fadd x y = (if x = y then x else NaN)"

definition fsub :: "jsnum \<Rightarrow> jsnum \<Rightarrow> jsnum" where
  "fsub x y = fadd x (fneg y)"

text \<open>
  \<open>Math.exp\<close>. ECMAScript leaves its accuracy to the implementation; the model takes
  the correctly rounded value of the exponential.
\<close>

fun Math_exp :: "jsnum \<Rightarrow> jsnum" where
  "Math_exp (Finite a) = round_double (exp a)"
| "Math_exp PosInfinity = PosInfinity"
| "Math_exp NegInfinity = Finite 0"
| "Math_exp NaN = NaN"

section \<open>The carousel with continuous commit (components/ImageCarousel)\<close>

subsection \<open>Props, state and configuration\<close>

record image =
  src :: string
  caption :: string

text \<open>
  The four \<open>useState\<close> cells. \<open>currentIndex\<close> is \<open>None\<close> when it holds NaN.
  Every handler is modelled as a function from the state of the latest render to the
  state after the handler's updates.
\<close>

record carousel_state =
  currentIndex :: "int option"
  isDragging :: bool
  startX :: real
  currentX :: real

definition initialState :: carousel_state where
  "initialState = \<lparr>currentIndex = Some 0, isDragging = False, startX = 0, currentX = 0\<rparr>"

definition SENSITIVITY :: real where
  "SENSITIVITY = 200"

definition SPREAD :: real where
  "SPREAD = 120"

definition MIN_SCALE :: real where
  "MIN_SCALE = 1 / 2"

definition MAX_SCALE :: real where
  "MAX_SCALE = 1"

definition SCALE_SPREAD :: real where
  "SCALE_SPREAD = 1 / 2"

subsection \<open>Layout: getImageStyle\<close>

text \<open>
  The function \<open>gaussian\<close>, read as a function of exact reals.
\<close>

definition gaussian :: "real \<Rightarrow> real \<Rightarrow> real \<Rightarrow> real \<Rightarrow> real" where
  "gaussian v mn mx spread = (mx - mn) * exp (- v * v / (2 * spread)) + mn"

text \<open>
  The same body, \<open>const exp = -x*x/(2*spread); return (max - min) * Math.exp(exp) + min\<close>,
  evaluated operation by operation in double arithmetic, as the engine evaluates it.
\<close>

definition gaussian_double :: "jsnum \<Rightarrow> jsnum \<Rightarrow> jsnum \<Rightarrow> jsnum \<Rightarrow> jsnum" where
  "gaussian_double x mn mx spread =
     (let e = fdiv (fmul (fneg x) x) (fmul (Finite 2) spread)
      in fadd (fmul (fsub mx mn) (Math_exp e)) mn)"

text \<open>
  \<open>Math.max(Math.floor(totalImages / 2) - 2)\<close>: \<open>Math.max\<close> of a single argument is
  that argument.
\<close>

definition maxOffset :: "nat \<Rightarrow> int" where
  "maxOffset totalImages = \<lfloor>real totalImages / 2\<rfloor> - 2"

text \<open>
  The local constant \<open>adjustedOffset\<close> of \<open>getImageStyle\<close>: the signed circular
  offset of item \<open>index\<close> from the centre, with the live drag fraction added.
\<close>

definition adjustedOffset :: "nat \<Rightarrow> carousel_state \<Rightarrow> nat \<Rightarrow> real option" where
  "adjustedOffset totalImages s index =
     (case currentIndex s of
        None \<Rightarrow> None
      | Some c \<Rightarrow>
          (let indexOffset = real index - real_of_int c;
               dragOffset = (currentX s - startX s) / SENSITIVITY
           in case js_fmod (indexOffset + dragOffset + real totalImages) (real totalImages) of
                None \<Rightarrow> None
              | Some offset \<Rightarrow>
                  Some (if offset > real totalImages / 2
                        then offset - real totalImages else offset)))"

text \<open>\<open>Math.max(0, 100 - Math.floor(absOffset * 10))\<close>.\<close>

definition zIndex :: "real \<Rightarrow> int" where
  "zIndex absOffset = max 0 (100 - \<lfloor>absOffset * 10\<rfloor>)"

text \<open>
  \<open>Math.max(0, 1 - (absOffset - 1) / maxOffset)\<close>. When \<open>maxOffset\<close> is zero the
  quotient is \<open>+Infinity\<close>, \<open>-Infinity\<close> or NaN by the sign of \<open>absOffset - 1\<close>, and
  \<open>Math.max\<close> returns \<open>0\<close>, \<open>+Infinity\<close> or NaN.
\<close>

definition opacity :: "int \<Rightarrow> real \<Rightarrow> jsnum" where
  "opacity mo absOffset =
     (if mo = 0 then
        (if absOffset - 1 > 0 then Finite 0
         else if absOffset - 1 < 0 then PosInfinity
         else NaN)
      else Finite (max 0 (1 - (absOffset - 1) / real_of_int mo)))"

text \<open>
  The returned style: the two numbers inside the \<open>transform\<close> string, \<open>zIndex\<close> and
  \<open>opacity\<close>. The result is \<open>None\<close> when the offset is NaN, where every field is NaN.
\<close>

record image_style =
  transform_x :: real
  transform_scale :: real
  style_zIndex :: int
  style_opacity :: jsnum

definition getImageStyle :: "nat \<Rightarrow> carousel_state \<Rightarrow> nat \<Rightarrow> image_style option" where
  "getImageStyle totalImages s index =
     (case adjustedOffset totalImages s index of
        None \<Rightarrow> None
      | Some a \<Rightarrow>
          (let absOffset = \<bar>a\<bar>
           in Some \<lparr>transform_x = a * SPREAD,
                    transform_scale = gaussian a MIN_SCALE MAX_SCALE SCALE_SPREAD,
                    style_zIndex = zIndex absOffset,
                    style_opacity = opacity (maxOffset totalImages) absOffset\<rparr>))"

subsection \<open>Gestures and navigation\<close>

text \<open>
  \<open>setCurrentIndex((prevIndex) => (prevIndex + offset + totalImages) % totalImages)\<close>.
\<close>

definition offsetImage :: "nat \<Rightarrow> int \<Rightarrow> carousel_state \<Rightarrow> carousel_state" where
  "offsetImage totalImages offset s =
     s\<lparr>currentIndex :=
         (case currentIndex s of
            None \<Rightarrow> None
          | Some prevIndex \<Rightarrow> js_rem (prevIndex + offset + int totalImages) (int totalImages))\<rparr>"

definition handleStart :: "real \<Rightarrow> carousel_state \<Rightarrow> carousel_state" where
  "handleStart clientX s = s\<lparr>isDragging := True, startX := clientX, currentX := clientX\<rparr>"

definition handleMove :: "real \<Rightarrow> carousel_state \<Rightarrow> carousel_state" where
  "handleMove clientX s = (if \<not> isDragging s then s else s\<lparr>currentX := clientX\<rparr>)"

definition handleEnd :: "nat \<Rightarrow> carousel_state \<Rightarrow> carousel_state" where
  "handleEnd totalImages s =
     (if \<not> isDragging s then s
      else
        (let offset = - js_round ((currentX s - startX s) / SENSITIVITY)
         in (offsetImage totalImages offset s)
              \<lparr>isDragging := False, startX := 0, currentX := 0\<rparr>))"

text \<open>
  The click handler of the item at \<open>index\<close>:
  \<open>if (index !== currentIndex && !isDragging) setCurrentIndex(index)\<close>.
\<close>

definition onClick :: "nat \<Rightarrow> carousel_state \<Rightarrow> carousel_state" where
  "onClick index s =
     (if currentIndex s \<noteq> Some (int index) \<and> \<not> isDragging s
      then s\<lparr>currentIndex := Some (int index)\<rparr> else s)"

text \<open>
  The two arrow buttons carry \<open>disabled={isDragging}\<close> and the handlers
  \<open>() => offsetImage(-1)\<close> and \<open>() => offsetImage(1)\<close>: a click on a disabled button
  runs no handler.
\<close>

definition clickPrevious :: "nat \<Rightarrow> carousel_state \<Rightarrow> carousel_state" where
  "clickPrevious totalImages s = (if isDragging s then s else offsetImage totalImages (- 1) s)"

definition clickNext :: "nat \<Rightarrow> carousel_state \<Rightarrow> carousel_state" where
  "clickNext totalImages s = (if isDragging s then s else offsetImage totalImages 1 s)"

subsection \<open>Rendering\<close>

text \<open>
  The component body: the styles of all items (\<open>images.map\<close>), then the caption
  \<open>images[currentIndex].caption\<close>. An index outside the array (or NaN) reads
  \<open>undefined\<close>, and the property access on it throws a TypeError, which fails the
  whole render.
\<close>

datatype error = TypeError

record view =
  styles :: "image_style option list"
  caption_text :: string

definition ImageCarousel :: "image list \<Rightarrow> carousel_state \<Rightarrow> error + view" where
  "ImageCarousel images s =
     (let totalImages = length images;
          items = map (getImageStyle totalImages s) [0..<totalImages]
      in case currentIndex s of
           None \<Rightarrow> Inl TypeError
         | Some c \<Rightarrow>
             (if 0 \<le> c \<and> c < int totalImages
              then Inr \<lparr>styles = items, caption_text = caption (images ! nat c)\<rparr>
              else Inl TypeError))"

section \<open>The carousel with threshold commit (earlier revision of the component)\<close>

text \<open>
  The earlier revision keeps a fifth state cell \<open>dragOffset\<close>, scales items by a
  piecewise-linear function, and commits a drag by one step when it is longer than a
  threshold. Its functions carry the suffix \<open>_thr\<close> where the name is shared with the
  current revision.
\<close>

record threshold_state = carousel_state +
  dragOffset :: real

definition initialState_thr :: threshold_state where
  "initialState_thr =
     \<lparr>currentIndex = Some 0, isDragging = False, startX = 0, currentX = 0, dragOffset = 0\<rparr>"

subsection \<open>Layout\<close>

text \<open>The local constant \<open>finalOffset\<close> of \<open>getImageStyle\<close>.\<close>

definition finalOffset :: "nat \<Rightarrow> threshold_state \<Rightarrow> nat \<Rightarrow> real option" where
  "finalOffset totalImages s index =
     (case currentIndex s of
        None \<Rightarrow> None
      | Some c \<Rightarrow>
          (case js_rem (int index - c + int totalImages) (int totalImages) of
             None \<Rightarrow> None
           | Some offset \<Rightarrow>
               (let adjusted = (if real_of_int offset > real totalImages / 2
                                then offset - int totalImages else offset)
                in Some (real_of_int adjusted + dragOffset s / 100))))"

text \<open>The \<open>if\<close> chain that assigns \<open>scale\<close>.\<close>

definition scale_thr :: "real \<Rightarrow> real" where
  "scale_thr absOffset =
     (if absOffset = 0 then 1
      else if absOffset \<le> 1 then 1 - absOffset * (3 / 10)
      else if absOffset \<le> 2 then 7 / 10 - (absOffset - 1) * (2 / 10)
      else 5 / 10 - (absOffset - 2) * (1 / 10))"

text \<open>\<open>absOffset > 3 ? 0 : 1 - Math.max(0, absOffset - 1) * 0.3\<close>.\<close>

definition opacity_thr :: "real \<Rightarrow> real" where
  "opacity_thr absOffset =
     (if absOffset > 3 then 0 else 1 - max 0 (absOffset - 1) * (3 / 10))"

record image_style_thr =
  thr_x :: real
  thr_z :: real
  thr_scale :: real
  thr_zIndex :: int
  thr_opacity :: real

definition getImageStyle_thr :: "nat \<Rightarrow> threshold_state \<Rightarrow> nat \<Rightarrow> image_style_thr option" where
  "getImageStyle_thr totalImages s index =
     (case finalOffset totalImages s index of
        None \<Rightarrow> None
      | Some f \<Rightarrow>
          (let absOffset = \<bar>f\<bar>;
               angle = f * 45;
               radius = 200
           in Some \<lparr>thr_x = sin (angle * pi / 180) * radius,
                    thr_z = - cos (angle * pi / 180) * radius + radius,
                    thr_scale = scale_thr absOffset,
                    thr_zIndex = zIndex absOffset,
                    thr_opacity = opacity_thr absOffset\<rparr>))"

subsection \<open>Gestures and navigation\<close>

definition nextImage :: "nat \<Rightarrow> threshold_state \<Rightarrow> threshold_state" where
  "nextImage totalImages s =
     (if \<not> isDragging s
      then s\<lparr>currentIndex :=
               (case currentIndex s of
                  None \<Rightarrow> None
                | Some prevIndex \<Rightarrow> js_rem (prevIndex + 1) (int totalImages))\<rparr>
      else s)"

definition prevImage :: "nat \<Rightarrow> threshold_state \<Rightarrow> threshold_state" where
  "prevImage totalImages s =
     (if \<not> isDragging s
      then s\<lparr>currentIndex :=
               (case currentIndex s of
                  None \<Rightarrow> None
                | Some prevIndex \<Rightarrow>
                    js_rem (prevIndex - 1 + int totalImages) (int totalImages))\<rparr>
      else s)"

definition handleStart_thr :: "real \<Rightarrow> threshold_state \<Rightarrow> threshold_state" where
  "handleStart_thr clientX s =
     s\<lparr>isDragging := True, startX := clientX, currentX := clientX\<rparr>"

definition handleMove_thr :: "real \<Rightarrow> threshold_state \<Rightarrow> threshold_state" where
  "handleMove_thr clientX s =
     (if \<not> isDragging s then s
      else (let diff = clientX - startX s
            in s\<lparr>currentX := clientX, dragOffset := diff * (1 / 2)\<rparr>))"

text \<open>
  \<open>nextImage\<close> and \<open>prevImage\<close> are the callbacks of the same render as \<open>handleEnd\<close>
  (they are among its dependencies), so they read the same \<open>isDragging\<close>.
\<close>

definition handleEnd_thr :: "nat \<Rightarrow> threshold_state \<Rightarrow> threshold_state" where
  "handleEnd_thr totalImages s =
     (if \<not> isDragging s then s
      else
        (let diff = currentX s - startX s;
             threshold = 50;
             s1 = (if \<bar>diff\<bar> > threshold
                   then (if diff > 0 then prevImage totalImages s
                         else nextImage totalImages s)
                   else s)
         in s1\<lparr>isDragging := False, dragOffset := 0, startX := 0, currentX := 0\<rparr>))"

definition onClick_thr :: "nat \<Rightarrow> threshold_state \<Rightarrow> threshold_state" where
  "onClick_thr index s =
     (if currentIndex s \<noteq> Some (int index) \<and> \<not> isDragging s
      then s\<lparr>currentIndex := Some (int index)\<rparr> else s)"

text \<open>
  The arrow buttons of this revision carry \<open>disabled={isDragging}\<close> and call
  \<open>prevImage\<close> and \<open>nextImage\<close>.
\<close>

definition clickPrevious_thr :: "nat \<Rightarrow> threshold_state \<Rightarrow> threshold_state" where
  "clickPrevious_thr totalImages s = (if isDragging s then s else prevImage totalImages s)"

definition clickNext_thr :: "nat \<Rightarrow> threshold_state \<Rightarrow> threshold_state" where
  "clickNext_thr totalImages s = (if isDragging s then s else nextImage totalImages s)"

section \<open>Basic facts\<close>

lemma js_rem_nonneg: "0 \<le> a \<Longrightarrow> 0 < b \<Longrightarrow> js_rem a b = Some (a mod b)"
  by (simp add: js_rem_def sgn_if)

lemma js_trunc_of_int_div:
  assumes "0 \<le> a" "0 < b"
  shows "js_trunc (real_of_int a / real_of_int b) = a div b"
proof -
  have "0 \<le> real_of_int a / real_of_int b" using assms by simp
  then show ?thesis by (simp add: js_trunc_def floor_divide_of_int_eq)
qed

lemma js_fmod_of_int:
  assumes "0 \<le> a" "0 < b"
  shows "js_fmod (real_of_int a) (real_of_int b) = Some (real_of_int (a mod b))"
proof -
  have "real_of_int (a mod b) = real_of_int a - real_of_int b * real_of_int (a div b)"
    by (simp add: minus_div_mult_eq_mod [symmetric] algebra_simps)
  then show ?thesis using assms by (simp add: js_fmod_def js_trunc_of_int_div)
qed

lemma offsetImage_wraps:
  assumes "0 < n" "currentIndex s = Some c" "0 \<le> c + d + int n"
  shows "currentIndex (offsetImage n d s) = Some ((c + d) mod int n)"
  using assms by (simp add: offsetImage_def js_rem_nonneg)

lemma adjustedOffset_rest:
  assumes "i < n" "currentIndex s = Some c" "0 \<le> c" "c < int n" "currentX s = startX s"
  shows "adjustedOffset n s i =
     Some (let r = (int i - c) mod int n
           in if real_of_int r > real n / 2 then real_of_int r - real n else real_of_int r)"
proof -
  have n: "0 < int n" using assms by simp
  have k: "0 \<le> int i - c + int n" using assms by simp
  have "real i - real_of_int c + real n = real_of_int (int i - c + int n)" by simp
  then have "js_fmod (real i - real_of_int c + real n) (real n)
      = Some (real_of_int ((int i - c + int n) mod int n))"
    using js_fmod_of_int [OF k n] by simp
  then show ?thesis using assms by (simp add: adjustedOffset_def Let_def)
qed

lemma gaussian_scale: "gaussian a MIN_SCALE MAX_SCALE SCALE_SPREAD = exp (- (a * a)) / 2 + 1 / 2"
  by (simp add: gaussian_def MIN_SCALE_def MAX_SCALE_def SCALE_SPREAD_def)


lemma exp_neg_square_le_one: "exp (- (a * a)) \<le> (1::real)"
proof -
  have "- (a * a) \<le> 0" by simp
  then show ?thesis by (simp only: exp_le_one_iff)
qed





lemma getImageStyle_scale:
  assumes "getImageStyle n s i = Some st"
  shows "\<exists>a. adjustedOffset n s i = Some a \<and>
             transform_scale st = gaussian a MIN_SCALE MAX_SCALE SCALE_SPREAD"
  using assms by (auto simp: getImageStyle_def Let_def split: option.splits)

lemma adjustedOffset_defined:
  assumes "0 < n" "currentIndex s = Some c"
  shows "adjustedOffset n s i \<noteq> None"
  using assms by (simp add: adjustedOffset_def js_fmod_def Let_def)

lemma getImageStyle_defined:
  assumes "0 < n" "currentIndex s = Some c"
  shows "getImageStyle n s i \<noteq> None"
  using adjustedOffset_defined [OF assms, of i]
  by (auto simp: getImageStyle_def Let_def split: option.splits)

lemma ImageCarousel_empty: "ImageCarousel [] s = Inl TypeError"
  by (auto simp: ImageCarousel_def split: option.splits)

lemma offsetImage_example:
  "currentIndex (offsetImage 7 (- 1) initialState) = Some 6"
  by (simp add: offsetImage_def js_rem_def initialState_def)

lemma js_round_zero: "js_round 0 = 0"
  by (simp add: js_round_def)

lemma fold_handleMove:
  assumes "isDragging s"
  shows "isDragging (fold handleMove xs s) \<and> startX (fold handleMove xs s) = startX s
         \<and> currentIndex (fold handleMove xs s) = currentIndex s"
  using assms by (induction xs arbitrary: s) (simp_all add: handleMove_def)

lemma handleEnd_thr_keeps_index: "currentIndex (handleEnd_thr n s) = currentIndex s"
  by (simp add: handleEnd_thr_def nextImage_def prevImage_def Let_def)

lemma handleEnd_zero_drag:
  assumes "isDragging s" "currentX s = startX s" "currentIndex s = Some c" "0 \<le> c" "c < int n"
  shows "currentIndex (handleEnd n s) = Some c"
proof -
  have n: "0 < n" using assms by linarith
  have "currentIndex (offsetImage n 0 s) = Some ((c + 0) mod int n)"
    using assms by (intro offsetImage_wraps [OF n]) simp_all
  then show ?thesis using assms by (simp add: handleEnd_def js_round_zero)
qed

lemma maxOffset_pos:
  assumes "6 \<le> n"
  shows "1 \<le> maxOffset n"
proof -
  have "3 \<le> real n / 2" using assms by simp
  then have "3 \<le> \<lfloor>real n / 2\<rfloor>" by (simp add: le_floor_iff)
  then show ?thesis by (simp add: maxOffset_def)
qed

lemma opacity_positive_maxOffset:
  assumes "1 \<le> mo" "0 \<le> u"
  shows "\<exists>v. opacity mo u = Finite v \<and> 0 \<le> v \<and> v \<le> 1 + 1 / real_of_int mo
           \<and> (u = 0 \<longrightarrow> v = 1 + 1 / real_of_int mo)
           \<and> (u \<le> 1 \<longleftrightarrow> 1 \<le> v)
           \<and> (real_of_int mo + 1 \<le> u \<longleftrightarrow> v = 0)"
proof -
  define m where "m = real_of_int mo"
  have m: "1 \<le> m" using assms by (simp add: m_def)
  define v where "v = max 0 (1 - (u - 1) / m)"
  have eq: "opacity mo u = Finite v" using assms by (simp add: opacity_def v_def m_def)
  have q: "(u - 1) / m \<ge> - (1 / m)" using m assms by (simp add: field_simps)
  have v0: "0 \<le> v" by (simp add: v_def)
  have v1: "v \<le> 1 + 1 / m" using q m by (simp add: v_def)
  have c: "u = 0 \<longrightarrow> v = 1 + 1 / m" using m by (simp add: v_def)
  have o: "u \<le> 1 \<longleftrightarrow> 1 \<le> v"
  proof -
    have "1 \<le> v \<longleftrightarrow> (u - 1) / m \<le> 0" by (auto simp: v_def)
    also have "\<dots> \<longleftrightarrow> u - 1 \<le> 0" using m by (simp add: divide_le_0_iff)
    finally show ?thesis by auto
  qed
  have z: "m + 1 \<le> u \<longleftrightarrow> v = 0"
  proof -
    have "v = 0 \<longleftrightarrow> 1 \<le> (u - 1) / m" by (auto simp: v_def)
    also have "\<dots> \<longleftrightarrow> m \<le> u - 1" using m by (simp add: le_divide_eq)
    finally show ?thesis by auto
  qed
  from eq v0 v1 c o z show ?thesis unfolding m_def by blast
qed

subsection \<open>Facts about double arithmetic\<close>

lemma round_half_even_le:
  assumes "q \<le> of_int m"
  shows "round_half_even q \<le> m"
proof (cases "q = of_int m")
  case True
  then show ?thesis by (simp add: round_half_even_def)
next
  case False
  then have "q < of_int m" using assms by simp
  then have "\<lfloor>q\<rfloor> < m" by (simp add: floor_less_iff)
  then show ?thesis by (simp add: round_half_even_def Let_def)
qed

lemma round_half_even_ge:
  assumes "of_int m \<le> q"
  shows "m \<le> round_half_even q"
proof -
  have "m \<le> \<lfloor>q\<rfloor>" using assms by (simp add: le_floor_iff)
  then show ?thesis by (simp add: round_half_even_def Let_def)
qed

lemma round_half_even_of_int: "round_half_even (of_int m) = m"
  by (simp add: round_half_even_def)

lemma ulp_pos: "0 < ulp r"
  by (simp add: ulp_def)

lemma floor_log2_le:
  assumes "0 < r" "r \<le> 2 powr of_int k"
  shows "\<lfloor>log 2 r\<rfloor> \<le> k"
proof -
  have "0 < 2 powr real_of_int k" by simp
  then have "log 2 r \<le> log 2 (2 powr of_int k)" using assms by (subst log_le_cancel_iff) simp_all
  then have "log 2 r \<le> of_int k" by simp
  then show ?thesis by (simp add: floor_le_iff)
qed

lemma floor_log2_ge:
  assumes "0 < r" "2 powr of_int k \<le> r"
  shows "k \<le> \<lfloor>log 2 r\<rfloor>"
proof -
  have "0 < 2 powr real_of_int k" by simp
  then have "log 2 (2 powr of_int k) \<le> log 2 r" using assms by (subst log_le_cancel_iff) simp_all
  then have "of_int k \<le> log 2 r" by simp
  then show ?thesis by (simp add: le_floor_iff)
qed

lemma two_powr_int_diff:
  assumes "e \<le> k"
  shows "(2::real) powr of_int k / 2 powr of_int e = real_of_int (2 ^ nat (k - e))"
proof -
  have "(2::real) powr of_int k / 2 powr of_int e = 2 powr (of_int k - of_int e)"
    by (simp add: powr_diff)
  also have "\<dots> = 2 powr real (nat (k - e))" using assms by simp
  also have "\<dots> = 2 ^ nat (k - e)" by (simp add: powr_realpow)
  finally show ?thesis by simp
qed

lemma pow2_below_overflow:
  assumes "k < 1024"
  shows "2 powr of_int k < overflow_threshold"
proof -
  have "real_of_int k < real (1024::nat)" using assms by simp
  then have "(2::real) powr of_int k < 2 powr real (1024::nat)"
    by (simp only: powr_less_cancel_iff)
  also have "\<dots> = 2 ^ (1024::nat)" by (rule powr_realpow) simp
  finally show ?thesis by (simp only: overflow_threshold_def)
qed

lemma round_double_le_pow2:
  assumes "0 < r" "r \<le> 2 powr of_int k" "- 1074 \<le> k" "k < 1024"
  shows "\<exists>v. round_double r = Finite v \<and> 0 \<le> v \<and> v \<le> 2 powr of_int k"
proof -
  define e where "e = max (\<lfloor>log 2 \<bar>r\<bar>\<rfloor> - 52) (- 1074)"
  define v where "v = of_int (round_half_even (r / ulp r)) * ulp r"
  have u: "ulp r = 2 powr of_int e" by (simp add: ulp_def e_def)
  have "\<lfloor>log 2 \<bar>r\<bar>\<rfloor> \<le> k" using floor_log2_le [of r k] assms by simp
  then have ek: "e \<le> k" using assms(3) by (simp add: e_def)
  have M: "2 powr of_int k / ulp r = real_of_int (2 ^ nat (k - e))"
    unfolding u by (rule two_powr_int_diff [OF ek])
  have "r / ulp r \<le> 2 powr of_int k / ulp r"
    using assms(2) ulp_pos [of r] by (simp add: divide_right_mono)
  then have "round_half_even (r / ulp r) \<le> 2 ^ nat (k - e)"
    unfolding M by (rule round_half_even_le)
  then have "real_of_int (round_half_even (r / ulp r)) \<le> real_of_int (2 ^ nat (k - e))"
    by (simp only: of_int_le_iff)
  then have "v \<le> real_of_int (2 ^ nat (k - e)) * ulp r"
    unfolding v_def using ulp_pos [of r] by (simp add: mult_right_mono)
  also have "\<dots> = 2 powr of_int k" using M ulp_pos [of r] by (simp add: field_simps)
  finally have hi: "v \<le> 2 powr of_int k" .
  have "real_of_int 0 \<le> r / ulp r" using assms(1) ulp_pos [of r] by simp
  then have "0 \<le> round_half_even (r / ulp r)" by (rule round_half_even_ge)
  then have lo: "0 \<le> v" unfolding v_def using ulp_pos [of r] by simp
  have "v < overflow_threshold" using hi pow2_below_overflow [OF assms(4)] by simp
  then have "\<not> overflow_threshold \<le> \<bar>v\<bar>" using lo by simp
  then have "round_double r = Finite v"
    using assms(1) by (simp add: round_double_def v_def Let_def)
  then show ?thesis using lo hi by blast
qed

lemma round_double_ge_pow2:
  assumes "0 < r" "2 powr of_int k \<le> r" "- 1074 \<le> k" "round_double r = Finite v"
  shows "2 powr of_int k \<le> v"
proof -
  define j where "j = \<lfloor>log 2 \<bar>r\<bar>\<rfloor>"
  define e where "e = max (j - 52) (- 1074)"
  define w where "w = of_int (round_half_even (r / ulp r)) * ulp r"
  have u: "ulp r = 2 powr of_int e" by (simp add: ulp_def e_def j_def)
  have kj: "k \<le> j" using floor_log2_ge [of r k] assms by (simp add: j_def)
  then have ej: "e \<le> j" using assms(3) by (simp add: e_def)
  have "of_int j \<le> log 2 r" using assms(1) by (simp add: j_def)
  then have "2 powr of_int j \<le> 2 powr log 2 r" by simp
  then have jr: "2 powr of_int j \<le> r" using assms(1) by simp
  have M: "2 powr of_int j / ulp r = real_of_int (2 ^ nat (j - e))"
    unfolding u by (rule two_powr_int_diff [OF ej])
  have "2 powr of_int j / ulp r \<le> r / ulp r"
    using jr ulp_pos [of r] by (simp add: divide_right_mono)
  then have "2 ^ nat (j - e) \<le> round_half_even (r / ulp r)"
    unfolding M by (rule round_half_even_ge)
  then have "real_of_int (2 ^ nat (j - e)) \<le> real_of_int (round_half_even (r / ulp r))"
    by (simp only: of_int_le_iff)
  then have "real_of_int (2 ^ nat (j - e)) * ulp r \<le> w"
    unfolding w_def using ulp_pos [of r] by (simp add: mult_right_mono)
  moreover have "real_of_int (2 ^ nat (j - e)) * ulp r = 2 powr of_int j"
    using M ulp_pos [of r] by (simp add: field_simps)
  ultimately have jw: "2 powr of_int j \<le> w" by simp
  have "(2::real) powr of_int k \<le> 2 powr of_int j" using kj by simp
  then have kw: "2 powr of_int k \<le> w" using jw by (rule order_trans)
  have "round_double r = Finite w \<or> round_double r = PosInfinity"
    using assms(1) by (simp add: round_double_def w_def Let_def)
  then have "v = w" using assms(4) by auto
  then show ?thesis using kw by simp
qed

lemma round_double_nonpos:
  assumes "r \<le> 0"
  shows "round_double r = NegInfinity \<or> (\<exists>v. round_double r = Finite v \<and> v \<le> 0)"
proof (cases "r = 0")
  case True
  then show ?thesis by (simp add: round_double_def)
next
  case False
  then have neg: "r < 0" using assms by simp
  define w where "w = of_int (round_half_even (r / ulp r)) * ulp r"
  have "r / ulp r \<le> real_of_int 0" using neg ulp_pos [of r] by (simp add: divide_le_0_iff)
  then have "round_half_even (r / ulp r) \<le> 0" by (rule round_half_even_le)
  then have "w \<le> 0" unfolding w_def using ulp_pos [of r] by (simp add: mult_le_0_iff)
  moreover have "round_double r = Finite w \<or> round_double r = NegInfinity"
    using neg by (simp add: round_double_def w_def Let_def)
  ultimately show ?thesis by blast
qed

lemma round_double_pow2:
  assumes "- 1074 \<le> k" "k < 1024"
  shows "round_double (2 powr of_int k) = Finite (2 powr of_int k)"
proof -
  have p: "(0::real) < 2 powr of_int k" by simp
  obtain v where v: "round_double (2 powr of_int k) = Finite v" "v \<le> 2 powr of_int k"
    using round_double_le_pow2 [OF p _ assms] by auto
  have "2 powr of_int k \<le> v"
    using round_double_ge_pow2 [OF p _ assms(1) v(1)] by simp
  then show ?thesis using v by simp
qed

lemma round_double_one: "round_double 1 = Finite 1"
  using round_double_pow2 [of 0] by simp

lemma round_double_half: "round_double (1 / 2) = Finite (1 / 2)"
  using round_double_pow2 [of "- 1"] by (simp add: powr_minus)

lemma ulp_eq:
  assumes "2 powr of_int j \<le> \<bar>r\<bar>" "\<bar>r\<bar> < 2 powr of_int (j + 1)" "- 1022 \<le> j"
  shows "ulp r = 2 powr of_int (j - 52)"
proof -
  have "0 < (2::real) powr of_int j" by simp
  then have pos: "0 < \<bar>r\<bar>" using assms(1) by linarith
  have "\<lfloor>log 2 \<bar>r\<bar>\<rfloor> = j"
    using assms(1,2) floor_log_eq_powr_iff [of "\<bar>r\<bar>" 2 j] pos by simp
  then show ?thesis using assms(3) by (simp add: ulp_def)
qed

lemma round_double_exact:
  assumes "r = of_int m * ulp r" "r \<noteq> 0" "\<bar>r\<bar> < overflow_threshold"
  shows "round_double r = Finite r"
proof -
  have "r / ulp r = of_int m" using assms(1) ulp_pos [of r] by (simp add: field_simps)
  then have "of_int (round_half_even (r / ulp r)) * ulp r = r"
    using assms(1) by (simp add: round_half_even_of_int)
  then show ?thesis using assms(2,3) by (simp add: round_double_def Let_def)
qed

lemma small_below_overflow:
  assumes "\<bar>r\<bar> \<le> 2 ^ 62"
  shows "\<bar>r\<bar> < overflow_threshold"
proof -
  have "(2::real) ^ 62 < 2 ^ 1024" by (rule power_strict_increasing) simp_all
  then show ?thesis using assms unfolding overflow_threshold_def by linarith
qed

lemma round_double_minus_49: "round_double (- 49) = Finite (- 49)"
proof -
  have u: "ulp (- 49) = 2 powr of_int (5 - 52)"
    by (rule ulp_eq) simp_all
  have m: "(- 49 :: real) = of_int (- 49 * 2 ^ 47) * ulp (- 49)"
    unfolding u by (simp add: powr_minus)
  have b: "\<bar>- 49 :: real\<bar> < overflow_threshold" by (rule small_below_overflow) simp
  show ?thesis by (rule round_double_exact [OF m _ b]) simp
qed

lemma round_double_half_plus_tiny:
  assumes "0 \<le> t" "t \<le> 2 powr (- 54)"
  shows "round_double (t + 1 / 2) = Finite (1 / 2)"
proof -
  define r where "r = t + 1 / 2"
  have t54: "t \<le> 1 / 2 ^ 54" using assms(2) by (simp add: powr_minus inverse_eq_divide)
  have r1: "\<bar>r\<bar> = r" "1 / 2 \<le> r" "r < 1" using assms(1) t54 by (simp_all add: r_def)
  have u: "ulp r = 2 powr of_int (- 1 - 52)"
    by (rule ulp_eq) (use r1 in \<open>simp_all add: powr_minus\<close>)
  then have u': "ulp r = 1 / 2 ^ 53" by (simp add: powr_minus inverse_eq_divide)
  define d where "d = t * 2 ^ 53"
  have q: "r / ulp r = of_int (2 ^ 52) + d" unfolding u' by (simp add: r_def d_def)
  have d: "0 \<le> d" "d \<le> 1 / 2" using assms(1) t54 by (simp_all add: d_def field_simps)
  have f: "\<lfloor>r / ulp r\<rfloor> = 2 ^ 52" unfolding q using d by (simp add: floor_add_int) linarith
  have "r / ulp r - of_int \<lfloor>r / ulp r\<rfloor> = d" unfolding f using q by simp
  then have "round_half_even (r / ulp r) = 2 ^ 52"
    using d f by (simp add: round_half_even_def Let_def)
  then have v: "of_int (round_half_even (r / ulp r)) * ulp r = 1 / 2"
    unfolding u' by simp
  have "\<bar>1 / 2 :: real\<bar> < overflow_threshold" by (rule small_below_overflow) simp
  then have "round_double r = Finite (1 / 2)"
    using r1 v by (simp add: round_double_def Let_def)
  then show ?thesis by (simp add: r_def)
qed

lemma exp_minus_49: "exp (- 49 :: real) \<le> 2 powr of_int (- 64)"
proof -
  have "1 + (1::real) + 1\<^sup>2 / 2 \<le> exp 1" by (rule exp_lower_Taylor_quadratic) simp
  then have e: "5 / 2 \<le> exp (1::real)" by simp
  have "(2::real) ^ 64 \<le> (5 / 2) ^ 49" by (simp add: power_divide)
  also have "\<dots> \<le> exp 1 ^ 49" using e by (intro power_mono) simp_all
  also have "\<dots> = exp (of_nat 49 * (1::real))" by (simp only: exp_of_nat_mult)
  finally have "(2::real) ^ 64 \<le> exp 49" by simp
  then have "inverse (exp (49::real)) \<le> inverse (2 ^ 64)"
    by (intro le_imp_inverse_le) simp_all
  then show ?thesis by (simp add: exp_minus powr_minus)
qed

lemma fsub_one_half: "fsub (Finite 1) (Finite (1 / 2)) = Finite (1 / 2)"
  using round_double_half by (simp add: fsub_def)

lemma fmul_two_half: "fmul (Finite 2) (Finite (1 / 2)) = Finite 1"
  by (simp add: round_double_one)

lemma fmul_half_bounded:
  assumes "0 \<le> E" "E \<le> 2 powr of_int k" "- 1073 \<le> k" "k < 1024"
  shows "\<exists>h. fmul (Finite (1 / 2)) (Finite E) = Finite h \<and> 0 \<le> h \<and> h \<le> 2 powr of_int (k - 1)"
proof (cases "E = 0")
  case True
  then show ?thesis by (simp add: round_double_def)
next
  case False
  then have p: "0 < 1 / 2 * E" using assms(1) by simp
  have "1 / 2 * E \<le> 2 powr of_int (k - 1)" using assms(2) by (simp add: powr_diff)
  then show ?thesis using round_double_le_pow2 [OF p, of "k - 1"] assms(3,4) by simp
qed

lemma exp_stage:
  "\<exists>E. Math_exp (fdiv (fmul (fneg (Finite x)) (Finite x)) (fmul (Finite 2) (Finite (1 / 2))))
         = Finite E \<and> 0 \<le> E \<and> E \<le> 1"
proof -
  have exp_fin: "\<exists>E. Math_exp (Finite q) = Finite E \<and> 0 \<le> E \<and> E \<le> 1" if "q \<le> 0" for q :: real
  proof -
    have "exp q \<le> 2 powr of_int 0" using that by simp
    then show ?thesis using round_double_le_pow2 [of "exp q" 0] by simp
  qed
  have exp_all: "\<exists>E. Math_exp y = Finite E \<and> 0 \<le> E \<and> E \<le> 1"
    if "y = NegInfinity \<or> (\<exists>q. y = Finite q \<and> q \<le> 0)" for y
    using that exp_fin by auto
  have m: "fmul (fneg (Finite x)) (Finite x) = round_double (- (x * x))" by simp
  have "- (x * x) \<le> 0" by simp
  then have a: "fmul (fneg (Finite x)) (Finite x) = NegInfinity
      \<or> (\<exists>q. fmul (fneg (Finite x)) (Finite x) = Finite q \<and> q \<le> 0)"
    unfolding m by (rule round_double_nonpos)
  have d: "fdiv y (Finite 1) = NegInfinity \<or> (\<exists>q. fdiv y (Finite 1) = Finite q \<and> q \<le> 0)"
    if "y = NegInfinity \<or> (\<exists>q. y = Finite q \<and> q \<le> 0)" for y
  proof -
    from that consider "y = NegInfinity" | q where "y = Finite q" "q \<le> 0" by blast
    then show ?thesis
    proof cases
      case 1
      then show ?thesis by simp
    next
      case 2
      then show ?thesis using round_double_nonpos [of q] by simp
    qed
  qed
  show ?thesis unfolding fmul_two_half by (rule exp_all [OF d [OF a]])
qed

lemma scale_stage:
  assumes "0 \<le> E" "E \<le> 1"
  shows "\<exists>v. fadd (fmul (fsub (Finite 1) (Finite (1 / 2))) (Finite E)) (Finite (1 / 2)) = Finite v
            \<and> 1 / 2 \<le> v \<and> v \<le> 1"
proof -
  have "E \<le> 2 powr of_int 0" using assms by simp
  then obtain h where h: "fmul (Finite (1 / 2)) (Finite E) = Finite h" "0 \<le> h"
      "h \<le> 2 powr of_int (0 - 1)"
    using fmul_half_bounded [OF assms(1), of 0] by auto
  then have h2: "h \<le> 1 / 2" by (simp add: powr_minus)
  have p: "0 < h + 1 / 2" using h(2) by simp
  have "h + 1 / 2 \<le> 2 powr of_int 0" using h2 by simp
  then obtain v where v: "round_double (h + 1 / 2) = Finite v" "v \<le> 2 powr of_int 0"
    using round_double_le_pow2 [OF p, of 0] by auto
  have "2 powr of_int (- 1) \<le> h + 1 / 2" using h(2) by (simp add: powr_minus)
  then have "2 powr of_int (- 1) \<le> v"
    using round_double_ge_pow2 [OF p _ _ v(1), of "- 1"] by simp
  then have "1 / 2 \<le> v" by (simp add: powr_minus)
  then show ?thesis using h(1) v by (simp add: fsub_one_half)
qed

lemma scale_stage_tiny:
  assumes "0 \<le> E" "E \<le> 2 powr of_int (- 53)"
  shows "fadd (fmul (fsub (Finite 1) (Finite (1 / 2))) (Finite E)) (Finite (1 / 2)) = Finite (1 / 2)"
proof -
  obtain h where h: "fmul (Finite (1 / 2)) (Finite E) = Finite h" "0 \<le> h"
      "h \<le> 2 powr of_int (- 53 - 1)"
    using fmul_half_bounded [OF assms, simplified] by auto
  then have "h \<le> 2 powr (- 54)" by simp
  then have "round_double (h + 1 / 2) = Finite (1 / 2)"
    using h(2) by (intro round_double_half_plus_tiny)
  then show ?thesis using h(1) by (simp add: fsub_one_half)
qed

lemma gaussian_double_7:
  "gaussian_double (Finite 7) (Finite (1 / 2)) (Finite 1) (Finite (1 / 2)) = Finite (1 / 2)"
proof -
  have e: "fdiv (fmul (fneg (Finite 7)) (Finite 7)) (fmul (Finite 2) (Finite (1 / 2))) = Finite (- 49)"
    by (simp add: round_double_one round_double_minus_49)
  have p: "0 < exp (- 49 :: real)" by simp
  have "exp (- 49 :: real) \<le> 2 powr of_int (- 64)" by (rule exp_minus_49)
  then obtain E where E: "Math_exp (Finite (- 49)) = Finite E" "0 \<le> E" "E \<le> 2 powr of_int (- 64)"
    using round_double_le_pow2 [OF p, of "- 64"] by auto
  have "(2::real) powr of_int (- 64) \<le> 2 powr of_int (- 53)" by simp
  then have "E \<le> 2 powr of_int (- 53)" using E(3) by (rule order_trans [rotated])
  then have "fadd (fmul (fsub (Finite 1) (Finite (1 / 2))) (Finite E)) (Finite (1 / 2)) = Finite (1 / 2)"
    using E(2) by (intro scale_stage_tiny)
  then show ?thesis unfolding gaussian_double_def Let_def e E(1) .
qed

lemma gaussian_double_bounds:
  "\<exists>v. gaussian_double (Finite x) (Finite (1 / 2)) (Finite 1) (Finite (1 / 2)) = Finite v
       \<and> 1 / 2 \<le> v \<and> v \<le> 1"
proof -
  obtain E where E: "Math_exp (fdiv (fmul (fneg (Finite x)) (Finite x))
      (fmul (Finite 2) (Finite (1 / 2)))) = Finite E" "0 \<le> E" "E \<le> 1"
    using exp_stage [of x] by auto
  show ?thesis unfolding gaussian_double_def Let_def E(1) by (rule scale_stage [OF E(2,3)])
qed

lemma gaussian_double_0:
  "gaussian_double (Finite 0) (Finite (1 / 2)) (Finite 1) (Finite (1 / 2)) = Finite 1"
proof -
  have z: "round_double 0 = Finite 0" by (simp add: round_double_def)
  have "round_double (1 / 2 + 1 / 2) = Finite 1" using round_double_one by simp
  then show ?thesis
    by (simp add: gaussian_double_def fsub_one_half z round_double_one round_double_half)
qed

text \<open>
  \<open>offsetImage\<close> does not read \<open>isDragging\<close>: called during a drag it moves the index.
  Only the \<open>disabled\<close> attribute of the arrow buttons keeps it from running then.
\<close>

lemma offsetImage_unguarded:
  "currentIndex (offsetImage 7 1 (handleStart 100 initialState)) = Some 1"
  by (simp add: offsetImage_def handleStart_def initialState_def js_rem_def)

section \<open>Properties of the index update and the drag commit\<close>

text \<open>
  C1. The index update should keep \<open>currentIndex\<close> in \<open>[0, n)\<close> for every integer
  delta, large negative ones included. The update adds \<open>totalImages\<close> once before the
  remainder, and the remainder keeps the sign of its dividend: on three images, a drag of
  700 pixels to the right from the first item commits the delta \<open>-4\<close>, the index becomes
  \<open>-1\<close>, and the next render fails at the caption of the missing item.
\<close>

theorem long_right_drag_leaves_range:
  "currentIndex (handleEnd 3 (handleMove 700 (handleStart 0 initialState))) = Some (- 1)
   \<and> ImageCarousel (replicate 3 \<lparr>src = ''/placeholder.png'', caption = ''''\<rparr>)
         (handleEnd 3 (handleMove 700 (handleStart 0 initialState))) = Inl TypeError"
  by (simp add: handleEnd_def handleMove_def handleStart_def initialState_def offsetImage_def
      js_rem_def js_round_def SENSITIVITY_def ImageCarousel_def)

section \<open>Properties of the layout\<close>

text \<open>
  C2. The opacity should lie in \<open>[0, 1]\<close>, be 1 for the centred item and be 0 beyond
  \<open>maxOffset\<close>. The code shifts the fade by one step: for at least six images (where
  \<open>maxOffset\<close> is at least 1) the opacity is a number between 0 and
  \<open>1 + 1 / maxOffset\<close>, it takes that upper value at the centre, it is at least 1 exactly
  for the items within one step of the centre, and it is 0 exactly for the items whose
  absolute offset is at least \<open>maxOffset + 1\<close>.
\<close>

theorem opacity_fade:
  assumes "6 \<le> n" "currentIndex s = Some c"
  shows "\<exists>a v. adjustedOffset n s i = Some a
           \<and> map_option style_opacity (getImageStyle n s i) = Some (Finite v)
           \<and> 0 \<le> v \<and> v \<le> 1 + 1 / real_of_int (maxOffset n)
           \<and> (a = 0 \<longrightarrow> v = 1 + 1 / real_of_int (maxOffset n))
           \<and> (\<bar>a\<bar> \<le> 1 \<longleftrightarrow> 1 \<le> v)
           \<and> (real_of_int (maxOffset n) + 1 \<le> \<bar>a\<bar> \<longleftrightarrow> v = 0)"
proof -
  have n: "0 < n" using assms by simp
  obtain a where a: "adjustedOffset n s i = Some a"
    using adjustedOffset_defined [OF n assms(2), of i] by auto
  have st: "map_option style_opacity (getImageStyle n s i) = Some (opacity (maxOffset n) \<bar>a\<bar>)"
    using a by (simp add: getImageStyle_def Let_def)
  obtain v where v: "opacity (maxOffset n) \<bar>a\<bar> = Finite v" "0 \<le> v"
      "v \<le> 1 + 1 / real_of_int (maxOffset n)"
      "\<bar>a\<bar> = 0 \<longrightarrow> v = 1 + 1 / real_of_int (maxOffset n)"
      "\<bar>a\<bar> \<le> 1 \<longleftrightarrow> 1 \<le> v"
      "real_of_int (maxOffset n) + 1 \<le> \<bar>a\<bar> \<longleftrightarrow> v = 0"
    using opacity_positive_maxOffset [OF maxOffset_pos [OF assms(1)], of "\<bar>a\<bar>"] by auto
  from v(4) have c: "a = 0 \<longrightarrow> v = 1 + 1 / real_of_int (maxOffset n)" by simp
  from a st v(1,2,3) c v(5,6) show ?thesis by auto
qed

theorem opacity_fade_witness:
  "adjustedOffset 10 initialState 4 = Some 4
   \<and> map_option style_opacity (getImageStyle 10 initialState 4) = Some (Finite 0)
   \<and> maxOffset 10 = 3"
  using opacity_fade [of 10 initialState 0 4]
  by (auto simp: initialState_def adjustedOffset_def js_fmod_def js_trunc_def maxOffset_def)

theorem centred_opacity_exceeds_one:
  "adjustedOffset 10 initialState 0 = Some 0
   \<and> map_option style_opacity (getImageStyle 10 initialState 0) = Some (Finite (4 / 3))
   \<and> maxOffset 10 = 3
   \<and> adjustedOffset 10 (handleMove 100 (handleStart 0 initialState)) 3 = Some (7 / 2)
   \<and> map_option style_opacity
        (getImageStyle 10 (handleMove 100 (handleStart 0 initialState)) 3) = Some (Finite (1 / 6))"
  by (simp add: getImageStyle_def adjustedOffset_def initialState_def js_fmod_def js_trunc_def
      opacity_def maxOffset_def handleMove_def handleStart_def SENSITIVITY_def Let_def)

text \<open>
  With fewer than six images \<open>maxOffset\<close> is zero or negative: on three images the
  centred item gets opacity 0, on four images the neighbour of the centre gets NaN.
\<close>

lemma opacity_few_images:
  "adjustedOffset 3 initialState 0 = Some 0
   \<and> map_option style_opacity (getImageStyle 3 initialState 0) = Some (Finite 0)
   \<and> map_option style_opacity (getImageStyle 4 initialState 1) = Some NaN"
  by (simp add: getImageStyle_def adjustedOffset_def initialState_def js_fmod_def js_trunc_def
      opacity_def maxOffset_def Let_def)

text \<open>
  C4. For all \<open>n \<ge> 1\<close> and all \<open>i\<close>, \<open>c\<close> in \<open>[0, n)\<close>, the signed circular offset
  computed with drag fraction 0 lies in the half-open interval \<open>(-n/2, n/2]\<close>, and is 0
  when \<open>i = c\<close>.
\<close>

theorem adjustedOffset_range:
  assumes "1 \<le> n" "i < n" "currentIndex s = Some c" "0 \<le> c" "c < int n"
    "currentX s = startX s"
  shows "\<exists>a. adjustedOffset n s i = Some a \<and> - (real n / 2) < a \<and> a \<le> real n / 2
              \<and> (int i = c \<longrightarrow> a = 0)"
proof -
  define r where "r = (int i - c) mod int n"
  define a where "a = (if real_of_int r > real n / 2 then real_of_int r - real n else real_of_int r)"
  have eq: "adjustedOffset n s i = Some a"
    using adjustedOffset_rest [OF assms(2-6)] by (simp add: a_def r_def Let_def)
  have n: "0 < int n" using assms by simp
  have r0: "0 \<le> r" and rn: "r < int n" using n by (simp_all add: r_def)
  have lo: "- (real n / 2) < a"
  proof (cases "real_of_int r > real n / 2")
    case True
    then show ?thesis by (simp add: a_def)
  next
    case False
    have "0 \<le> real_of_int r" using r0 by simp
    moreover have "0 < real n" using assms by simp
    ultimately show ?thesis using False by (simp add: a_def)
  qed
  have hi: "a \<le> real n / 2"
  proof (cases "real_of_int r > real n / 2")
    case True
    have "real_of_int r < real n" using rn by linarith
    then show ?thesis using True by (simp add: a_def)
  next
    case False
    then show ?thesis by (simp add: a_def)
  qed
  have z: "int i = c \<longrightarrow> a = 0" by (simp add: a_def r_def)
  from eq lo hi z show ?thesis by blast
qed

theorem adjustedOffset_range_witness:
  "adjustedOffset 7 initialState 0 = Some 0
   \<and> (\<exists>a. adjustedOffset 7 (initialState\<lparr>currentIndex := Some 1\<rparr>) 5 = Some a
          \<and> - (7 / 2) < a \<and> a \<le> 7 / 2)"
  using adjustedOffset_range [of 7 0 initialState 0]
    adjustedOffset_range [of 7 5 "initialState\<lparr>currentIndex := Some 1\<rparr>" 1]
  by (simp add: initialState_def)



text \<open>
  Over exact reals the Gaussian scale is strictly greater than \<open>MIN_SCALE\<close> and at
  most \<open>MAX_SCALE\<close>.
\<close>

lemma gaussian_exact_bounds:
  "MIN_SCALE < gaussian a MIN_SCALE MAX_SCALE SCALE_SPREAD
   \<and> gaussian a MIN_SCALE MAX_SCALE SCALE_SPREAD \<le> MAX_SCALE
   \<and> MIN_SCALE = 1 / 2 \<and> MAX_SCALE = 1"
proof -
  have "0 < exp (- (a * a))" by simp
  moreover note exp_neg_square_le_one [of a]
  ultimately have "1 / 2 < exp (- (a * a)) / 2 + 1 / 2 \<and> exp (- (a * a)) / 2 + 1 / 2 \<le> 1"
    by linarith
  then have "MIN_SCALE < exp (- (a * a)) / 2 + 1 / 2
      \<and> exp (- (a * a)) / 2 + 1 / 2 \<le> MAX_SCALE"
    by (simp add: MIN_SCALE_def MAX_SCALE_def)
  then have "MIN_SCALE < gaussian a MIN_SCALE MAX_SCALE SCALE_SPREAD
      \<and> gaussian a MIN_SCALE MAX_SCALE SCALE_SPREAD \<le> MAX_SCALE"
    by (simp only: gaussian_scale)
  then show ?thesis by (simp add: MIN_SCALE_def MAX_SCALE_def)
qed

text \<open>
  C10. The Gaussian depth scale should lie in \<open>(MIN_SCALE, MAX_SCALE]\<close>, strictly above
  \<open>0.5\<close>. In double arithmetic the lower bound is not strict: for every finite signed
  offset the computed scale lies in the closed interval \<open>[MIN_SCALE, MAX_SCALE]\<close>, that
  is between \<open>0.5\<close> and 1, and it is exactly \<open>MAX_SCALE\<close> at offset 0; so no scale
  reaches zero or exceeds the centre scale. At offset 7, where an item rests when there
  are 14 images, the scale is exactly \<open>MIN_SCALE\<close>.
\<close>

theorem gaussian_double_range:
  "(\<exists>v. gaussian_double (Finite a) (Finite MIN_SCALE) (Finite MAX_SCALE) (Finite SCALE_SPREAD)
          = Finite v \<and> MIN_SCALE \<le> v \<and> v \<le> MAX_SCALE)
   \<and> gaussian_double (Finite 0) (Finite MIN_SCALE) (Finite MAX_SCALE) (Finite SCALE_SPREAD)
        = Finite MAX_SCALE
   \<and> MIN_SCALE = 1 / 2 \<and> MAX_SCALE = 1"
  using gaussian_double_bounds [of a] gaussian_double_0
  by (simp add: MIN_SCALE_def MAX_SCALE_def SCALE_SPREAD_def)

theorem gaussian_double_range_witness:
  "\<exists>v. gaussian_double (Finite (5 / 2)) (Finite MIN_SCALE) (Finite MAX_SCALE)
         (Finite SCALE_SPREAD) = Finite v \<and> 1 / 2 \<le> v \<and> v \<le> 1"
  using gaussian_double_range [of "5 / 2"] by (simp add: MIN_SCALE_def MAX_SCALE_def)

theorem gaussian_double_reaches_min:
  "adjustedOffset 14 initialState 7 = Some 7
   \<and> gaussian_double (Finite 7) (Finite MIN_SCALE) (Finite MAX_SCALE) (Finite SCALE_SPREAD)
        = Finite MIN_SCALE"
  using gaussian_double_7
  by (simp add: MIN_SCALE_def MAX_SCALE_def SCALE_SPREAD_def adjustedOffset_def
      initialState_def js_fmod_def js_trunc_def)

section \<open>Properties of rendering\<close>

text \<open>
  C3. An empty image sequence should be rejected or guarded. The component has no guard:
  with no images the render fails with a TypeError at the caption lookup (no item style is
  computed, so no remainder by zero is taken). With at least one image and
  \<open>currentIndex\<close> in \<open>[0, n)\<close> the render succeeds, shows the caption of the item at
  \<open>currentIndex\<close> and computes a style without NaN for every item.
\<close>

theorem ImageCarousel_unguarded:
  "ImageCarousel [] s = Inl TypeError \<and>
   (currentIndex s = Some c \<and> 0 \<le> c \<and> c < int (length images) \<longrightarrow>
      (\<exists>v. ImageCarousel images s = Inr v
           \<and> caption_text v = caption (images ! nat c)
           \<and> length (styles v) = length images
           \<and> None \<notin> set (styles v)))"
proof (intro conjI impI)
  show "ImageCarousel [] s = Inl TypeError" by (rule ImageCarousel_empty)
next
  assume h: "currentIndex s = Some c \<and> 0 \<le> c \<and> c < int (length images)"
  then have n: "0 < length images" by linarith
  let ?items = "map (getImageStyle (length images) s) [0..<length images]"
  have r: "ImageCarousel images s =
      Inr \<lparr>styles = ?items, caption_text = caption (images ! nat c)\<rparr>"
    using h by (simp add: ImageCarousel_def Let_def)
  have "None \<notin> set ?items"
  proof
    assume "None \<in> set ?items"
    then obtain i where "None = getImageStyle (length images) s i" by auto
    then have "getImageStyle (length images) s i = None" by (rule sym)
    then show False using getImageStyle_defined [OF n, of s c i] h by simp
  qed
  then show "\<exists>v. ImageCarousel images s = Inr v
           \<and> caption_text v = caption (images ! nat c)
           \<and> length (styles v) = length images
           \<and> None \<notin> set (styles v)"
    using r by simp
qed

theorem ImageCarousel_unguarded_witness:
  "\<exists>v. ImageCarousel [\<lparr>src = ''/placeholder.png'', caption = ''Image number 1''\<rparr>] initialState
          = Inr v
      \<and> caption_text v = ''Image number 1'' \<and> length (styles v) = 1 \<and> None \<notin> set (styles v)"
  using ImageCarousel_unguarded [of initialState 0
      "[\<lparr>src = ''/placeholder.png'', caption = ''Image number 1''\<rparr>]"]
  by (simp add: initialState_def)

theorem ImageCarousel_empty_fails: "ImageCarousel [] initialState = Inl TypeError"
  by (simp add: ImageCarousel_def initialState_def)

section \<open>Properties of gestures and navigation\<close>

text \<open>
  C6. Under the threshold commit (threshold 50 pixels), a drag of 40 pixels should leave
  \<open>currentIndex\<close> unchanged and a drag of 60 pixels to the right should move it to the
  previous item. The commit calls \<open>prevImage\<close> while \<open>isDragging\<close> is still true, and
  \<open>prevImage\<close> does nothing then: on seven images at index 0, the drag of 60 pixels
  leaves the index at 0 instead of 6, like the drag of 40 pixels.
\<close>

theorem threshold_drag_never_commits:
  "currentIndex (handleEnd_thr 7 (handleMove_thr 160 (handleStart_thr 100 initialState_thr)))
     = Some 0
   \<and> currentIndex (handleEnd_thr 7 (handleMove_thr 140 (handleStart_thr 100 initialState_thr)))
     = Some 0
   \<and> currentIndex (clickPrevious_thr 7 initialState_thr) = Some 6"
  by (simp add: handleEnd_thr_def handleMove_thr_def handleStart_thr_def initialState_thr_def
      clickPrevious_thr_def prevImage_def nextImage_def js_rem_def Let_def)

text \<open>
  C7. A completed drag gesture whose pointer ends where it started leaves \<open>currentIndex\<close>
  unchanged under both commit policies, from every state whose \<open>currentIndex\<close> is a valid
  index. The gesture is a press at \<open>x0\<close>, any moves \<open>xs\<close>, a last move back to \<open>x0\<close>
  and the release.
\<close>

theorem zero_net_drag_keeps_index:
  assumes "currentIndex s = Some c" "0 \<le> c" "c < int n"
  shows "currentIndex (handleEnd n (handleMove x0 (fold handleMove xs (handleStart x0 s))))
           = currentIndex s
         \<and> currentIndex (handleEnd_thr n
              (handleMove_thr x0 (fold handleMove_thr xs (handleStart_thr x0 t))))
           = currentIndex t"
proof -
  let ?s0 = "handleStart x0 s"
  let ?s1 = "fold handleMove xs ?s0"
  let ?s2 = "handleMove x0 ?s1"
  have d0: "isDragging ?s0" by (simp add: handleStart_def)
  have f: "isDragging ?s1 \<and> startX ?s1 = startX ?s0 \<and> currentIndex ?s1 = currentIndex ?s0"
    by (rule fold_handleMove [OF d0])
  have s2: "isDragging ?s2" "currentX ?s2 = startX ?s2" "currentIndex ?s2 = Some c"
    using f assms(1) by (simp_all add: handleMove_def handleStart_def)
  have a: "currentIndex (handleEnd n ?s2) = currentIndex s"
    using handleEnd_zero_drag [OF s2 assms(2,3)] assms(1) by simp
  let ?t0 = "handleStart_thr x0 t"
  have t0: "isDragging ?t0" by (simp add: handleStart_thr_def)
  have g: "isDragging u \<Longrightarrow> isDragging (fold handleMove_thr xs u) \<and>
      currentIndex (fold handleMove_thr xs u) = currentIndex u" for u
    by (induction xs arbitrary: u) (simp_all add: handleMove_thr_def Let_def)
  have "currentIndex (handleMove_thr x0 (fold handleMove_thr xs ?t0)) = currentIndex t"
    using g [OF t0] by (simp add: handleMove_thr_def handleStart_thr_def Let_def)
  then have b: "currentIndex (handleEnd_thr n
      (handleMove_thr x0 (fold handleMove_thr xs ?t0))) = currentIndex t"
    by (simp only: handleEnd_thr_keeps_index)
  from a b show ?thesis by blast
qed

theorem zero_net_drag_keeps_index_witness:
  "currentIndex (handleEnd 7 (handleMove 100 (fold handleMove [150, 30] (handleStart 100
       (initialState\<lparr>currentIndex := Some 3\<rparr>))))) = Some 3
   \<and> currentIndex (handleEnd_thr 7 (handleMove_thr 100 (fold handleMove_thr [150, 30]
       (handleStart_thr 100 (initialState_thr\<lparr>currentIndex := Some 3\<rparr>))))) = Some 3"
  using zero_net_drag_keeps_index [of "initialState\<lparr>currentIndex := Some 3\<rparr>" 3 7 100
      "[150, 30]" "initialState_thr\<lparr>currentIndex := Some 3\<rparr>"]
  by (simp add: initialState_def initialState_thr_def)

text \<open>
  C8. While \<open>isDragging\<close> is true, no discrete navigation changes \<open>currentIndex\<close>:
  neither the two arrow buttons nor the click on an item. In the current revision the
  arrow buttons are gated by their \<open>disabled\<close> attribute (\<open>offsetImage\<close> itself has no
  check and is also the drag commit); in the earlier revision \<open>nextImage\<close> and
  \<open>prevImage\<close> check \<open>isDragging\<close> themselves.
\<close>

theorem navigation_disabled_while_dragging:
  assumes "isDragging s" "isDragging t"
  shows "currentIndex (clickNext n s) = currentIndex s
       \<and> currentIndex (clickPrevious n s) = currentIndex s
       \<and> currentIndex (onClick i s) = currentIndex s
       \<and> currentIndex (nextImage n t) = currentIndex t
       \<and> currentIndex (prevImage n t) = currentIndex t
       \<and> currentIndex (clickNext_thr n t) = currentIndex t
       \<and> currentIndex (clickPrevious_thr n t) = currentIndex t
       \<and> currentIndex (onClick_thr i t) = currentIndex t"
  using assms
  by (simp add: clickNext_def clickPrevious_def onClick_def nextImage_def prevImage_def
      clickNext_thr_def clickPrevious_thr_def onClick_thr_def)

theorem navigation_disabled_while_dragging_witness:
  "currentIndex (clickNext 7 (handleStart 100 initialState)) = Some 0
   \<and> currentIndex (clickPrevious 7 (handleStart 100 initialState)) = Some 0
   \<and> currentIndex (onClick 2 (handleStart 100 initialState)) = Some 0
   \<and> currentIndex (nextImage 7 (handleStart_thr 100 initialState_thr)) = Some 0
   \<and> currentIndex (prevImage 7 (handleStart_thr 100 initialState_thr)) = Some 0
   \<and> currentIndex (onClick_thr 2 (handleStart_thr 100 initialState_thr)) = Some 0"
  using navigation_disabled_while_dragging [of "handleStart 100 initialState"
      "handleStart_thr 100 initialState_thr" 7 2]
  by (simp add: handleStart_def handleStart_thr_def initialState_def initialState_thr_def)

text \<open>
  C9. Jump-to-index is idempotent at the current position: at rest, a click on the item
  that is already centred leaves the whole state unchanged, in both revisions.
\<close>

theorem jump_to_current_is_identity:
  assumes "\<not> isDragging s" "currentIndex s = Some (int c)"
    and "\<not> isDragging t" "currentIndex t = Some (int c)"
  shows "onClick c s = s \<and> onClick_thr c t = t"
  using assms by (simp add: onClick_def onClick_thr_def)

theorem jump_to_current_is_identity_witness:
  "onClick 0 initialState = initialState \<and> onClick_thr 0 initialState_thr = initialState_thr"
  using jump_to_current_is_identity [of initialState 0 initialState_thr]
  by (simp add: initialState_def initialState_thr_def)

end
